theory Spec2Isabelle
  imports Main "HOL-Library.AList"
begin

section \<open>A single-tape Turing machine simulator\<close>

text \<open>
  The development follows \<^verbatim>\<open>turing_simulator.py\<close>: the classes \<^verbatim>\<open>Tape\<close>,
  \<^verbatim>\<open>TransitionFunction\<close> and \<^verbatim>\<open>TuringMachine\<close> become records, their methods
  become functions that take the object and return the updated one, and the two
  exceptions the engine can raise become values of \<open>error\<close>.

  Conventions.
  \<^item> A Python \<^verbatim>\<open>str\<close> is a \<open>string\<close>; a tape symbol and a state are strings.
  \<^item> A Python \<^verbatim>\<open>dict\<close> is an association list in insertion order: a lookup is
    \<open>map_of\<close>, an assignment \<^verbatim>\<open>d[k] = v\<close> is \<open>AList.update\<close>, which overwrites in
    place or appends at the end.
  \<^item> A Python \<^verbatim>\<open>set\<close> is the list of its members in the order in which the set
    iterates (\<open>pyset\<close>). Membership is membership in the list; \<^verbatim>\<open>list(s)\<close> is the
    list itself. Nothing in the language fixes the iteration order of a set of strings.
  \<^item> A method that may raise returns a pair: the exception or the returned value, and
    the object as the call leaves it.
  \<^item> Console output (\<^verbatim>\<open>print\<close>, \<^verbatim>\<open>input\<close>) is not modelled.
\<close>

subsection \<open>Python helpers\<close>

type_synonym 'a pyset = "'a list"

datatype error = ValueError | IndexError

fun max_list :: "'a::ord list \<Rightarrow> 'a" where
  "max_list (x # xs) = (case xs of [] \<Rightarrow> x | _ \<Rightarrow> max x (max_list xs))"

text \<open>\<^verbatim>\<open>str(n)\<close> for an integer, as an f-string renders it: decimal, with a minus sign.\<close>

fun str_nat :: "nat \<Rightarrow> string" where
  "str_nat n = (if n < 10 then [''0123456789'' ! n]
                else str_nat (n div 10) @ [''0123456789'' ! (n mod 10)])"

declare str_nat.simps [simp del]

definition str_int :: "int \<Rightarrow> string" where
  "str_int i = (if i < 0 then CHR ''-'' # str_nat (nat (- i)) else str_nat (nat i))"

subsection \<open>Direction and Tape\<close>

datatype Direction = LEFT | RIGHT

record Tape =
  tape_blank_symbol :: string
  tape_cells :: "(int \<times> string) list"
  head_position :: int

text \<open>
  \<^verbatim>\<open>Tape.__init__\<close>: the loop over \<^verbatim>\<open>enumerate(input_string)\<close> stores character
  \<open>i\<close> at position \<open>i\<close>; the head starts at 0.
\<close>

definition Tape_init :: "string \<Rightarrow> string \<Rightarrow> Tape" where
  "Tape_init input_string blank =
     \<lparr> tape_blank_symbol = blank,
       tape_cells = fold (\<lambda>(i, symbol) cells. AList.update (int i) [symbol] cells)
                         (enumerate 0 input_string) [],
       head_position = 0 \<rparr>"

text \<open>\<^verbatim>\<open>dict.get(key, default)\<close> on the cells.\<close>

definition cell_get :: "(int \<times> string) list \<Rightarrow> int \<Rightarrow> string \<Rightarrow> string" where
  "cell_get cells pos dflt = (case map_of cells pos of None \<Rightarrow> dflt | Some s \<Rightarrow> s)"

definition read :: "Tape \<Rightarrow> string" where
  "read t = cell_get (tape_cells t) (head_position t) (tape_blank_symbol t)"

definition write' :: "Tape \<Rightarrow> string \<Rightarrow> Tape" where
  "write' t symbol = t\<lparr>tape_cells := AList.update (head_position t) symbol (tape_cells t)\<rparr>"

fun move :: "Tape \<Rightarrow> Direction \<Rightarrow> Tape" where
  "move t LEFT = t\<lparr>head_position := head_position t - 1\<rparr>"
| "move t RIGHT = t\<lparr>head_position := head_position t + 1\<rparr>"

definition get_content :: "Tape \<Rightarrow> int \<Rightarrow> string" where
  "get_content t window =
     (if tape_cells t = [] then tape_blank_symbol t
      else
        let min_pos = min (min_list (map fst (tape_cells t))) (head_position t - window div 2);
            max_pos = max (max_list (map fst (tape_cells t))) (head_position t + window div 2)
        in concat (map (\<lambda>i. cell_get (tape_cells t) i (tape_blank_symbol t))
                       [min_pos..max_pos]))"

subsection \<open>TransitionFunction\<close>

type_synonym transition = "string \<times> string \<times> Direction"

record TransitionFunction =
  transitions :: "((string \<times> string) \<times> transition) list"

definition TransitionFunction_init :: TransitionFunction where
  "TransitionFunction_init = \<lparr> transitions = [] \<rparr>"

definition add_transition ::
  "TransitionFunction \<Rightarrow> string \<Rightarrow> string \<Rightarrow> string \<Rightarrow> string \<Rightarrow> string \<Rightarrow> TransitionFunction" where
  "add_transition tf current_state read_symbol next_state write_symbol direction =
     (let dir_enum = (if direction = ''L'' then LEFT else RIGHT)
      in tf\<lparr>transitions :=
              AList.update (current_state, read_symbol) (next_state, write_symbol, dir_enum)
                           (transitions tf)\<rparr>)"

definition get_transition :: "TransitionFunction \<Rightarrow> string \<Rightarrow> string \<Rightarrow> transition option" where
  "get_transition tf current_state read_symbol =
     map_of (transitions tf) (current_state, read_symbol)"

text \<open>One record of the list handed to \<^verbatim>\<open>load_from_dict\<close>.\<close>

record trans_record =
  tr_current_state :: string
  tr_read_symbol :: string
  tr_next_state :: string
  tr_write_symbol :: string
  tr_direction :: string

definition load_from_dict :: "TransitionFunction \<Rightarrow> trans_record list \<Rightarrow> TransitionFunction" where
  "load_from_dict tf transitions_dict =
     fold (\<lambda>trans tf'. add_transition tf' (tr_current_state trans) (tr_read_symbol trans)
                          (tr_next_state trans) (tr_write_symbol trans) (tr_direction trans))
          transitions_dict tf"

subsection \<open>TuringMachine\<close>

record TuringMachine =
  states :: "string pyset"
  input_alphabet :: "string pyset"
  tape_alphabet :: "string pyset"
  transition_function :: TransitionFunction
  initial_state :: string
  accept_states :: "string pyset"
  reject_states :: "string pyset"
  blank_symbol :: string
  current_state :: string
  tape :: "Tape option"
  step_count :: int
  history :: "string list"

text \<open>\<^verbatim>\<open>TuringMachine.__init__\<close> stores its arguments and checks none of them.\<close>

definition TuringMachine_init ::
  "string pyset \<Rightarrow> string pyset \<Rightarrow> string pyset \<Rightarrow> TransitionFunction \<Rightarrow> string \<Rightarrow>
   string pyset \<Rightarrow> string pyset \<Rightarrow> string \<Rightarrow> TuringMachine" where
  "TuringMachine_init sts ia ta tf init acc rej blank =
     \<lparr> states = sts, input_alphabet = ia, tape_alphabet = ta, transition_function = tf,
       initial_state = init, accept_states = acc, reject_states = rej, blank_symbol = blank,
       current_state = init, tape = None, step_count = 0, history = [] \<rparr>"

text \<open>
  \<^verbatim>\<open>_record_configuration\<close>: the line appended to the history. The letter after
  \<^verbatim>\<open>Posici\<close> is U+00F3.
\<close>

definition config_line :: "TuringMachine \<Rightarrow> Tape \<Rightarrow> string" where
  "config_line m t =
     ''Paso '' @ str_int (step_count m) @ '': Estado='' @ current_state m @
     '', Posici'' @ [CHR 0xF3] @ ''n='' @ str_int (head_position t) @
     '', Cinta='' @ get_content t 20"

definition record_configuration :: "TuringMachine \<Rightarrow> TuringMachine" where
  "record_configuration m =
     (case tape m of
        None \<Rightarrow> m
      | Some t \<Rightarrow> m\<lparr>history := history m @ [config_line m t]\<rparr>)"

definition load_input :: "TuringMachine \<Rightarrow> string \<Rightarrow> TuringMachine" where
  "load_input m input_string =
     record_configuration
       (m\<lparr>tape := Some (Tape_init input_string (blank_symbol m)),
          current_state := initial_state m,
          step_count := 0,
          history := []\<rparr>)"

text \<open>
  \<^verbatim>\<open>step\<close>. The first component is the exception raised or the value returned, the
  second the machine afterwards. \<^verbatim>\<open>list(self.reject_states)[0]\<close> raises
  \<^verbatim>\<open>IndexError\<close> on an empty set, before the assignment to \<^verbatim>\<open>current_state\<close>.
\<close>

definition step :: "TuringMachine \<Rightarrow> (error + bool) \<times> TuringMachine" where
  "step m =
     (case tape m of
        None \<Rightarrow> (Inl ValueError, m)
      | Some t \<Rightarrow>
          if current_state m \<in> set (accept_states m) then (Inr False, m)
          else if current_state m \<in> set (reject_states m) then (Inr False, m)
          else
            let current_symbol = read t in
            (case get_transition (transition_function m) (current_state m) current_symbol of
               None \<Rightarrow>
                 (case reject_states m of
                    [] \<Rightarrow> (Inl IndexError, m)
                  | r # _ \<Rightarrow> (Inr False, m\<lparr>current_state := r\<rparr>))
             | Some (next_state, write_symbol, direction) \<Rightarrow>
                 (Inr True,
                  record_configuration
                    (m\<lparr>tape := Some (move (write' t write_symbol) direction),
                       current_state := next_state,
                       step_count := step_count m + 1\<rparr>))))"

text \<open>
  The \<^verbatim>\<open>while\<close> loop of \<^verbatim>\<open>run\<close>. The third argument counts the calls of
  \<^verbatim>\<open>step\<close> made so far; the source keeps no such counter, it is carried here
  so that the number of calls can be stated. The loop ends by the condition, by
  \<^verbatim>\<open>break\<close>, or by an exception leaving \<^verbatim>\<open>step\<close>.
\<close>

function run_loop :: "TuringMachine \<Rightarrow> int \<Rightarrow> nat \<Rightarrow> (error + unit) \<times> TuringMachine \<times> nat" where
  "run_loop m max_steps calls =
     (if step_count m < max_steps then
        (case step m of
           (Inl e, m') \<Rightarrow> (Inl e, m', calls + 1)
         | (Inr can_continue, m') \<Rightarrow>
             if \<not> can_continue then (Inr (), m', calls + 1)
             else run_loop m' max_steps (calls + 1))
      else (Inr (), m, calls))"
  by pat_completeness auto
termination
proof (relation "measure (\<lambda>(m, max_steps, calls). nat (max_steps - step_count m))")
qed (auto simp: step_def record_configuration_def Let_def
         split: option.splits if_splits list.splits prod.splits)

declare run_loop.simps [simp del]

text \<open>The three outcome labels. The accented letter in the last one is U+00ED.\<close>

definition ACEPTADA :: string where
  "ACEPTADA = ''ACEPTADA''"

definition RECHAZADA :: string where
  "RECHAZADA = ''RECHAZADA''"

definition BUCLE_DETECTADO :: string where
  "BUCLE_DETECTADO = ''BUCLE DETECTADO (l'' @ [CHR 0xED] @ ''mite de pasos alcanzado)''"

text \<open>
  \<^verbatim>\<open>run\<close>, with the machine afterwards. \<open>run_calls\<close> is the number of calls of
  \<^verbatim>\<open>step\<close> the same run makes. With \<^verbatim>\<open>step_by_step\<close> the source prints each
  configuration and waits for the console; that changes no field of the machine.
\<close>

definition outcome :: "TuringMachine \<Rightarrow> bool \<times> string" where
  "outcome m =
     (if current_state m \<in> set (accept_states m) then (True, ACEPTADA)
      else if current_state m \<in> set (reject_states m) then (False, RECHAZADA)
      else (False, BUCLE_DETECTADO))"

definition run ::
  "TuringMachine \<Rightarrow> string \<Rightarrow> int \<Rightarrow> bool \<Rightarrow> (error + bool \<times> string) \<times> TuringMachine" where
  "run m input_string max_steps step_by_step =
     (case run_loop (load_input m input_string) max_steps 0 of
        (Inl e, m', calls) \<Rightarrow> (Inl e, m')
      | (Inr u, m', calls) \<Rightarrow> (Inr (outcome m'), m'))"

definition run_calls :: "TuringMachine \<Rightarrow> string \<Rightarrow> int \<Rightarrow> bool \<Rightarrow> nat" where
  "run_calls m input_string max_steps step_by_step =
     snd (snd (run_loop (load_input m input_string) max_steps 0))"

definition get_history :: "TuringMachine \<Rightarrow> string list" where
  "get_history m = history m"

subsection \<open>Repeated steps and the shape of the history\<close>

text \<open>\<open>steps n m\<close> is the machine after \<open>n\<close> calls of \<^verbatim>\<open>step\<close> in a row.\<close>

fun steps :: "nat \<Rightarrow> TuringMachine \<Rightarrow> TuringMachine" where
  "steps 0 m = m"
| "steps (Suc n) m = steps n (snd (step m))"

text \<open>
  \<open>line_of_step i l\<close>: the history line \<open>l\<close> is one that
  \<^verbatim>\<open>_record_configuration\<close> writes when \<^verbatim>\<open>step_count\<close> is \<open>i\<close>.
  \<open>history_inv\<close> is what holds of a machine from \<^verbatim>\<open>load_input\<close> on: a tape
  is loaded, the history has \<open>step_count + 1\<close> lines, line \<open>i\<close> was written at step
  count \<open>i\<close>, and unless the machine is in a reject state the last line is that of the
  current configuration.
\<close>

definition line_of_step :: "nat \<Rightarrow> string \<Rightarrow> bool" where
  "line_of_step i l \<longleftrightarrow> (\<exists>X. l = ''Paso '' @ str_nat i @ '': Estado='' @ X)"

definition history_inv :: "TuringMachine \<Rightarrow> bool" where
  "history_inv m \<longleftrightarrow>
     (\<exists>t. tape m = Some t
          \<and> (current_state m \<notin> set (reject_states m) \<longrightarrow> last (history m) = config_line m t))
     \<and> 0 \<le> step_count m
     \<and> int (length (history m)) = step_count m + 1
     \<and> (\<forall>i<length (history m). line_of_step i (history m ! i))"

subsection \<open>Machines used as concrete inputs\<close>

text \<open>
  The machine of \<^verbatim>\<open>TestTuringMachineBasic.setUp\<close>: it accepts exactly the input
  \<^verbatim>\<open>0\<close>.
\<close>

definition tf_basic :: TransitionFunction where
  "tf_basic = add_transition TransitionFunction_init ''q0'' ''0'' ''q_accept'' ''0'' ''R''"

definition tm_basic :: TuringMachine where
  "tm_basic =
     TuringMachine_init [''q0'', ''q_accept'', ''q_reject''] [''0'', ''1''] [''0'', ''1'', ''_'']
       tf_basic ''q0'' [''q_accept''] [''q_reject''] ''_''"


text \<open>The same machine with a transition out of its accepting state.\<close>

definition tf_dead :: TransitionFunction where
  "tf_dead = add_transition tf_basic ''q_accept'' ''_'' ''q0'' ''X'' ''L''"

definition tm_dead :: TuringMachine where
  "tm_dead =
     TuringMachine_init [''q0'', ''q_accept'', ''q_reject''] [''0'', ''1''] [''0'', ''1'', ''_'']
       tf_dead ''q0'' [''q_accept''] [''q_reject''] ''_''"

text \<open>The same machine with no reject state.\<close>

definition tm_no_reject :: TuringMachine where
  "tm_no_reject =
     TuringMachine_init [''q0'', ''q_accept''] [''0'', ''1''] [''0'', ''1'', ''_'']
       tf_basic ''q0'' [''q_accept''] [] ''_''"





text \<open>
  Two machines with the same two reject states, which their sets iterate in opposite
  orders.
\<close>

definition tm_two_a :: TuringMachine where
  "tm_two_a =
     TuringMachine_init [''q0'', ''q_accept'', ''q_reject'', ''q_trap''] [''0'', ''1'']
       [''0'', ''1'', ''_''] tf_basic ''q0'' [''q_accept''] [''q_reject'', ''q_trap''] ''_''"

definition tm_two_b :: TuringMachine where
  "tm_two_b =
     TuringMachine_init [''q0'', ''q_accept'', ''q_reject'', ''q_trap''] [''0'', ''1'']
       [''0'', ''1'', ''_''] tf_basic ''q0'' [''q_accept''] [''q_trap'', ''q_reject''] ''_''"

section \<open>Properties\<close>

subsection \<open>The description is never changed\<close>

lemma step_description:
  "states (snd (step m)) = states m"
  "input_alphabet (snd (step m)) = input_alphabet m"
  "tape_alphabet (snd (step m)) = tape_alphabet m"
  "transition_function (snd (step m)) = transition_function m"
  "initial_state (snd (step m)) = initial_state m"
  "accept_states (snd (step m)) = accept_states m"
  "reject_states (snd (step m)) = reject_states m"
  "blank_symbol (snd (step m)) = blank_symbol m"
  by (auto simp: step_def record_configuration_def Let_def
           split: option.splits list.splits prod.splits)

lemma load_input_exec_indep:
  "load_input (m\<lparr>current_state := c, tape := tp, step_count := n, history := h\<rparr>) inp
     = load_input m inp"
  by (simp add: load_input_def record_configuration_def)

lemma load_input_step: "load_input (snd (step m)) inp = load_input m inp"
  by (auto simp: step_def load_input_def record_configuration_def Let_def
           split: option.splits list.splits prod.splits)

lemma run_loop_stop: "\<not> step_count m < k \<Longrightarrow> run_loop m k n = (Inr (), m, n)"
  by (simp add: run_loop.simps [of m])

lemma run_loop_error:
  "step_count m < k \<Longrightarrow> step m = (Inl e, m') \<Longrightarrow> run_loop m k n = (Inl e, m', n + 1)"
  by (simp add: run_loop.simps [of m])

lemma run_loop_break:
  "step_count m < k \<Longrightarrow> step m = (Inr False, m') \<Longrightarrow> run_loop m k n = (Inr (), m', n + 1)"
  by (simp add: run_loop.simps [of m])

lemma run_loop_continue:
  "step_count m < k \<Longrightarrow> step m = (Inr True, m') \<Longrightarrow> run_loop m k n = run_loop m' k (n + 1)"
  by (simp add: run_loop.simps [of m])

lemma run_loop_induct [case_names stop error break continue]:
  fixes P :: "TuringMachine \<Rightarrow> int \<Rightarrow> nat \<Rightarrow> bool"
  assumes stop: "\<And>m k n. \<not> step_count m < k \<Longrightarrow> P m k n"
    and error: "\<And>m k n e m'. step_count m < k \<Longrightarrow> step m = (Inl e, m') \<Longrightarrow> P m k n"
    and break: "\<And>m k n m'. step_count m < k \<Longrightarrow> step m = (Inr False, m') \<Longrightarrow> P m k n"
    and continue: "\<And>m k n m'. step_count m < k \<Longrightarrow> step m = (Inr True, m') \<Longrightarrow>
                     P m' k (n + 1) \<Longrightarrow> P m k n"
  shows "P m k n"
proof (induction m k n rule: run_loop.induct)
  case (1 m max_steps calls)
  show ?case
  proof (cases "step_count m < max_steps")
    case False
    then show ?thesis by (rule stop)
  next
    case lt: True
    obtain r m' where s: "step m = (r, m')" by (cases "step m")
    show ?thesis
    proof (cases r)
      case (Inl e)
      with lt s show ?thesis by (auto intro: error)
    next
      case (Inr b)
      show ?thesis
      proof (cases b)
        case False
        with lt s Inr show ?thesis by (auto intro: break)
      next
        case True
        with "1.IH" [OF lt s [symmetric] Inr] have "P m' max_steps (calls + 1)" by simp
        with lt s Inr True show ?thesis by (auto intro: continue)
      qed
    qed
  qed
qed

lemma run_loop_load_input:
  "load_input (fst (snd (run_loop m k n))) inp = load_input m inp"
proof (induction m k n rule: run_loop_induct)
  case (stop m k n)
  then show ?case by (simp add: run_loop_stop)
next
  case (error m k n e m')
  then show ?case using load_input_step [of m inp] by (simp add: run_loop_error)
next
  case (break m k n m')
  then show ?case using load_input_step [of m inp] by (simp add: run_loop_break)
next
  case (continue m k n m')
  then show ?case using load_input_step [of m inp] by (simp add: run_loop_continue)
qed

lemma run_loop_calls:
  "snd (snd (run_loop m k n)) \<le> n + nat (k - step_count m)"
proof (induction m k n rule: run_loop_induct)
  case (stop m k n)
  then show ?case by (simp add: run_loop_stop)
next
  case (error m k n e m')
  then show ?case by (simp add: run_loop_error)
next
  case (break m k n m')
  then show ?case by (simp add: run_loop_break)
next
  case (continue m k n m')
  from continue(2) have "step_count m' = step_count m + 1"
    by (auto simp: step_def record_configuration_def Let_def
           split: option.splits if_splits list.splits prod.splits)
  with continue show ?case by (simp add: run_loop_continue)
qed

lemma run_loop_error_cause:
  "fst (run_loop m k n) = Inl e \<Longrightarrow> tape m \<noteq> None \<Longrightarrow> e = IndexError \<and> reject_states m = []"
proof (induction m k n rule: run_loop_induct)
  case (stop m k n)
  then show ?case by (simp add: run_loop_stop)
next
  case (error m k n e' m')
  then show ?case
    by (auto simp: run_loop_error step_def Let_def split: option.splits if_splits list.splits prod.splits)
next
  case (break m k n m')
  then show ?case by (simp add: run_loop_break)
next
  case (continue m k n m')
  from continue(2) have "tape m' \<noteq> None" "reject_states m' = reject_states m"
    by (auto simp: step_def record_configuration_def Let_def
           split: option.splits if_splits list.splits prod.splits)
  with continue show ?case by (simp add: run_loop_continue)
qed

subsection \<open>The tape\<close>

lemma map_of_seed:
  "map_of (fold (\<lambda>(i, symbol) cells. AList.update (int i) [symbol] cells) (enumerate n xs) acc) p
     = (if int n \<le> p \<and> p < int n + int (length xs) then Some [xs ! (nat p - n)] else map_of acc p)"
proof (induction xs arbitrary: n acc)
  case Nil
  then show ?case by auto
next
  case (Cons x xs)
  have "nat p - n = Suc (nat p - Suc n)" if "int (Suc n) \<le> p"
    using that by linarith
  then show ?case
    by (auto simp: Cons.IH update_conv')
qed

lemma Tape_init_read:
  "read ((Tape_init inp b)\<lparr>head_position := p\<rparr>)
     = (if 0 \<le> p \<and> p < int (length inp) then [inp ! nat p] else b)"
  by (simp add: read_def cell_get_def Tape_init_def map_of_seed)

lemma move_cases: "move t d = t\<lparr>head_position := head_position t + (case d of LEFT \<Rightarrow> - 1 | RIGHT \<Rightarrow> 1)\<rparr>"
  by (cases d) simp_all

text \<open>
  C9. One \<^verbatim>\<open>move\<close> changes the head position by exactly -1 (LEFT) or +1 (RIGHT)
  and leaves the cells and the blank symbol as they were; RIGHT then LEFT, and LEFT then
  RIGHT, give back the tape one started from.
\<close>

theorem move_unit_and_inverse:
  "head_position (move t LEFT) = head_position t - 1
   \<and> head_position (move t RIGHT) = head_position t + 1
   \<and> tape_cells (move t d) = tape_cells t
   \<and> tape_blank_symbol (move t d) = tape_blank_symbol t
   \<and> move (move t RIGHT) LEFT = t
   \<and> move (move t LEFT) RIGHT = t"
  by (cases d) simp_all

text \<open>
  C6. \<^verbatim>\<open>read\<close> is a total function of the tape that returns a symbol and nothing
  else. With the head at any position \<open>p\<close>: on a freshly seeded tape it returns
  character \<open>p\<close> of the input when \<open>0 \<le> p < len(input)\<close> and the blank symbol at every
  other position, negative ones and those past the end included; after a \<^verbatim>\<open>write\<close> it
  returns the written symbol at the position written and what it returned before at every
  other position; and on any tape it returns the blank symbol at a position that is not
  a key of the cells.
\<close>

theorem read_stored_or_blank:
  "(0 \<le> p \<and> p < int (length inp) \<longrightarrow>
      read ((Tape_init inp b)\<lparr>head_position := p\<rparr>) = [inp ! nat p])
   \<and> (p < 0 \<or> int (length inp) \<le> p \<longrightarrow>
      read ((Tape_init inp b)\<lparr>head_position := p\<rparr>) = b)
   \<and> read (write' t s) = s
   \<and> (p \<noteq> head_position t \<longrightarrow>
      read ((write' t s)\<lparr>head_position := p\<rparr>) = read (t\<lparr>head_position := p\<rparr>))
   \<and> (p \<notin> fst ` set (tape_cells t) \<longrightarrow>
      read (t\<lparr>head_position := p\<rparr>) = tape_blank_symbol t)"
proof -
  have "read (write' t s) = s"
    by (simp add: read_def write'_def cell_get_def update_conv')
  moreover have "read ((write' t s)\<lparr>head_position := p\<rparr>) = read (t\<lparr>head_position := p\<rparr>)"
    if "p \<noteq> head_position t"
    using that by (simp add: read_def write'_def cell_get_def update_conv')
  moreover have "read (t\<lparr>head_position := p\<rparr>) = tape_blank_symbol t"
    if "p \<notin> fst ` set (tape_cells t)"
    using that by (simp add: read_def cell_get_def map_of_eq_None_iff [THEN iffD2])
  ultimately show ?thesis
    by (auto simp: Tape_init_read)
qed

theorem read_stored_or_blank_witness:
  "read ((Tape_init ''01'' ''_'')\<lparr>head_position := 1\<rparr>) = ''1''
   \<and> read ((Tape_init ''01'' ''_'')\<lparr>head_position := - 1\<rparr>) = ''_''
   \<and> read ((Tape_init ''01'' ''_'')\<lparr>head_position := 2\<rparr>) = ''_''
   \<and> read (write' (Tape_init ''01'' ''_'') ''X'') = ''X''
   \<and> read ((write' (Tape_init ''01'' ''_'') ''X'')\<lparr>head_position := 1\<rparr>) = ''1''
   \<and> read ((move (Tape_init ''01'' ''_'') LEFT)\<lparr>head_position := 7\<rparr>) = ''_''"
proof -
  have c: "tape_cells (Tape_init ''01'' ''_'') = [(0, ''0''), (1, ''1'')]"
    by code_simp
  have h: "head_position (Tape_init ''01'' ''_'') = 0"
    by (simp add: Tape_init_def)
  have b: "tape_blank_symbol (Tape_init ''01'' ''_'') = ''_''"
    by (simp add: Tape_init_def)
  show ?thesis
    using read_stored_or_blank [of 1 "''01''" "''_''" "Tape_init ''01'' ''_''" "''X''"]
      read_stored_or_blank [of "- 1" "''01''" "''_''" "Tape_init ''01'' ''_''" "''X''"]
      read_stored_or_blank [of 2 "''01''" "''_''" "Tape_init ''01'' ''_''" "''X''"]
      read_stored_or_blank [of 7 "''01''" "''_''" "move (Tape_init ''01'' ''_'') LEFT" "''X''"]
    by (simp add: c h b)
qed

subsection \<open>One step\<close>

lemma step_halting:
  "tape m = Some t \<Longrightarrow>
   current_state m \<in> set (accept_states m) \<or> current_state m \<in> set (reject_states m) \<Longrightarrow>
   step m = (Inr False, m)"
  by (auto simp: step_def)

lemma step_undefined:
  "tape m = Some t \<Longrightarrow> current_state m \<notin> set (accept_states m) \<Longrightarrow>
   current_state m \<notin> set (reject_states m) \<Longrightarrow>
   get_transition (transition_function m) (current_state m) (read t) = None \<Longrightarrow>
   step m = (case reject_states m of
               [] \<Rightarrow> (Inl IndexError, m)
             | r # rs \<Rightarrow> (Inr False, m\<lparr>current_state := r\<rparr>))"
  by (simp add: step_def Let_def)

lemma step_defined:
  "tape m = Some t \<Longrightarrow> current_state m \<notin> set (accept_states m) \<Longrightarrow>
   current_state m \<notin> set (reject_states m) \<Longrightarrow>
   get_transition (transition_function m) (current_state m) (read t) = Some (q, w, d) \<Longrightarrow>
   step m = (Inr True,
             record_configuration
               (m\<lparr>tape := Some (move (write' t w) d), current_state := q,
                  step_count := step_count m + 1\<rparr>))"
  by (simp add: step_def Let_def)

text \<open>
  C2. On a machine with a loaded tape and at least one reject state, in a state that is
  neither accepting nor rejecting, when the transition function has no entry for the
  current state and the symbol under the head, \<^verbatim>\<open>step\<close> returns \<^verbatim>\<open>False\<close>
  without raising, leaves \<^verbatim>\<open>step_count\<close> as it was, and changes nothing but
  \<^verbatim>\<open>current_state\<close>, which becomes a member of \<^verbatim>\<open>reject_states\<close>.
\<close>

theorem step_undefined_transition_rejects:
  assumes "reject_states m \<noteq> []"
    and "tape m = Some t"
    and "current_state m \<notin> set (accept_states m)"
    and "current_state m \<notin> set (reject_states m)"
    and "get_transition (transition_function m) (current_state m) (read t) = None"
  shows "fst (step m) = Inr False
         \<and> current_state (snd (step m)) \<in> set (reject_states m)
         \<and> step_count (snd (step m)) = step_count m
         \<and> snd (step m) = m\<lparr>current_state := current_state (snd (step m))\<rparr>"
proof -
  from assms(1) obtain r rs where rs: "reject_states m = r # rs"
    by (cases "reject_states m") auto
  with step_undefined [OF assms(2-5)] have "step m = (Inr False, m\<lparr>current_state := r\<rparr>)"
    by simp
  with rs show ?thesis by simp
qed

theorem step_undefined_transition_rejects_witness:
  "fst (step (load_input tm_basic ''1'')) = Inr False
   \<and> current_state (snd (step (load_input tm_basic ''1''))) = ''q_reject''
   \<and> step_count (snd (step (load_input tm_basic ''1''))) = 0"
proof -
  let ?m = "load_input tm_basic ''1''"
  have h1: "reject_states ?m \<noteq> []" by code_simp
  have h2: "tape ?m = Some (Tape_init ''1'' ''_'')" by code_simp
  have h3: "current_state ?m \<notin> set (accept_states ?m)" by code_simp
  have h4: "current_state ?m \<notin> set (reject_states ?m)" by code_simp
  have h5: "get_transition (transition_function ?m) (current_state ?m)
              (read (Tape_init ''1'' ''_'')) = None" by code_simp
  have r: "reject_states ?m = [''q_reject'']" by code_simp
  have c: "step_count ?m = 0" by code_simp
  from step_undefined_transition_rejects [OF h1 h2 h3 h4 h5] show ?thesis
    by (simp add: r c)
qed

text \<open>
  C3. On a machine with a loaded tape whose current state is accepting or rejecting,
  \<^verbatim>\<open>step\<close> returns \<^verbatim>\<open>False\<close> and the machine is exactly as before: state, tape
  cells, head position, step count and history. The transition function is not consulted:
  the same holds whatever transition function the machine carries.
\<close>

theorem step_in_halting_state_is_noop:
  assumes "tape m \<noteq> None"
    and "current_state m \<in> set (accept_states m) \<or> current_state m \<in> set (reject_states m)"
  shows "step m = (Inr False, m)
         \<and> step (m\<lparr>transition_function := tf\<rparr>) = (Inr False, m\<lparr>transition_function := tf\<rparr>)"
  using assms by (auto simp: step_def)

theorem step_in_halting_state_is_noop_witness:
  "get_transition (transition_function (snd (step (load_input tm_dead ''0''))))
      (current_state (snd (step (load_input tm_dead ''0'')))) ''_''
     = Some (''q0'', ''X'', LEFT)
   \<and> step (snd (step (load_input tm_dead ''0'')))
     = (Inr False, snd (step (load_input tm_dead ''0'')))"
proof -
  let ?m = "snd (step (load_input tm_dead ''0''))"
  have h1: "tape ?m \<noteq> None" by code_simp
  have h2: "current_state ?m \<in> set (accept_states ?m) \<or> current_state ?m \<in> set (reject_states ?m)"
    by code_simp
  have g: "get_transition (transition_function ?m) (current_state ?m) ''_''
             = Some (''q0'', ''X'', LEFT)" by code_simp
  from step_in_halting_state_is_noop [OF h1 h2] g show ?thesis by simp
qed

text \<open>
  C8. \<^verbatim>\<open>step\<close> on a machine without a tape raises \<^verbatim>\<open>ValueError\<close> and changes
  nothing; a machine as the constructor returns it is such a machine. The exception is not
  caught by the loop of \<^verbatim>\<open>run\<close>, the only caller of \<^verbatim>\<open>step\<close> in the
  engine: the loop ends with that exception after this one call.
\<close>

theorem step_without_tape_raises:
  "(tape m = None \<longrightarrow> step m = (Inl ValueError, m))
   \<and> fst (step (TuringMachine_init sts ia ta tf init acc rej blank)) = Inl ValueError
   \<and> (tape m = None \<and> step_count m < k \<longrightarrow> run_loop m k n = (Inl ValueError, m, n + 1))"
proof -
  have a: "step m = (Inl ValueError, m)" if "tape m = None"
    using that by (simp add: step_def)
  have "tape (TuringMachine_init sts ia ta tf init acc rej blank) = None"
    by (simp add: TuringMachine_init_def)
  then have b: "fst (step (TuringMachine_init sts ia ta tf init acc rej blank)) = Inl ValueError"
    by (simp add: step_def)
  from a b show ?thesis
    by (auto simp: run_loop_error)
qed

theorem step_without_tape_raises_witness:
  "step tm_basic = (Inl ValueError, tm_basic)
   \<and> run_loop tm_basic 1000 0 = (Inl ValueError, tm_basic, 1)"
proof -
  have h1: "tape tm_basic = None" by code_simp
  have h2: "step_count tm_basic < 1000" by code_simp
  from step_without_tape_raises [of tm_basic _ _ _ _ _ _ _ _ 1000 0] h1 h2 show ?thesis
    by simp
qed

subsection \<open>Runs\<close>

lemma load_input_twice: "load_input (load_input m inp) inp' = load_input m inp'"
  by (simp add: load_input_def record_configuration_def)

lemma load_input_description:
  "states (load_input m inp) = states m"
  "transition_function (load_input m inp) = transition_function m"
  "initial_state (load_input m inp) = initial_state m"
  "accept_states (load_input m inp) = accept_states m"
  "reject_states (load_input m inp) = reject_states m"
  "blank_symbol (load_input m inp) = blank_symbol m"
  by (simp_all add: load_input_def record_configuration_def)

lemma load_input_exec:
  "tape (load_input m inp) = Some (Tape_init inp (blank_symbol m))"
  "current_state (load_input m inp) = initial_state m"
  "step_count (load_input m inp) = 0"
  "length (history (load_input m inp)) = 1"
  by (simp_all add: load_input_def record_configuration_def)

lemma run_fst:
  "fst (run m inp k sbs) =
     (case fst (run_loop (load_input m inp) k 0) of
        Inl e \<Rightarrow> Inl e
      | Inr u \<Rightarrow> Inr (outcome (fst (snd (run_loop (load_input m inp) k 0)))))"
  by (simp add: run_def split: prod.splits sum.splits)

lemma run_snd: "snd (run m inp k sbs) = fst (snd (run_loop (load_input m inp) k 0))"
  by (simp add: run_def split: prod.splits sum.splits)

lemma load_input_run: "load_input (snd (run m inp k sbs)) inp' = load_input m inp'"
  by (simp add: run_snd run_loop_load_input load_input_twice)

lemma run_description:
  "accept_states (snd (run m inp k sbs)) = accept_states m"
  "reject_states (snd (run m inp k sbs)) = reject_states m"
proof -
  have "accept_states (load_input (snd (run m inp k sbs)) []) = accept_states (load_input m [])"
    by (simp only: load_input_run)
  then show "accept_states (snd (run m inp k sbs)) = accept_states m"
    by (simp add: load_input_description)
  have "reject_states (load_input (snd (run m inp k sbs)) []) = reject_states (load_input m [])"
    by (simp only: load_input_run)
  then show "reject_states (snd (run m inp k sbs)) = reject_states m"
    by (simp add: load_input_description)
qed

text \<open>
  C5, as the code has it. On an implicit reject \<^verbatim>\<open>step\<close> takes the first member of
  \<^verbatim>\<open>reject_states\<close> in the order in which the set iterates. Neither \<^verbatim>\<open>step\<close>
  nor \<^verbatim>\<open>run\<close> changes \<^verbatim>\<open>reject_states\<close>, so every execution on one machine
  object, whose set keeps its order, takes the same state. The state taken does depend
  on the iteration order.
\<close>

theorem implicit_reject_takes_first_member:
  assumes "tape m = Some t"
    and "current_state m \<notin> set (accept_states m)"
    and "current_state m \<notin> set (reject_states m)"
    and "get_transition (transition_function m) (current_state m) (read t) = None"
    and "reject_states m = r # rs"
  shows "current_state (snd (step m)) = r
         \<and> reject_states (snd (step m)) = r # rs
         \<and> reject_states (snd (run m inp k sbs)) = r # rs"
  using step_undefined [OF assms(1-4)] assms(5)
  by (simp add: run_description)

theorem implicit_reject_takes_first_member_witness:
  "current_state (snd (step (load_input tm_two_a ''1''))) = ''q_reject''
   \<and> reject_states (snd (step (load_input tm_two_a ''1''))) = [''q_reject'', ''q_trap'']"
proof -
  let ?m = "load_input tm_two_a ''1''"
  have h1: "tape ?m = Some (Tape_init ''1'' ''_'')" by code_simp
  have h2: "current_state ?m \<notin> set (accept_states ?m)" by code_simp
  have h3: "current_state ?m \<notin> set (reject_states ?m)" by code_simp
  have h4: "get_transition (transition_function ?m) (current_state ?m)
              (read (Tape_init ''1'' ''_'')) = None" by code_simp
  have h5: "reject_states ?m = ''q_reject'' # [''q_trap'']" by code_simp
  from implicit_reject_takes_first_member [OF h1 h2 h3 h4 h5] show ?thesis by simp
qed

text \<open>
  C5, as the claim states it, fails: the two machines below have the same description,
  their \<^verbatim>\<open>reject_states\<close> are the same set, and on the same input they reject into
  different states.
\<close>

theorem reject_choice_depends_on_order:
  "set (reject_states tm_two_a) = set (reject_states tm_two_b)
   \<and> tm_two_b = tm_two_a\<lparr>reject_states := [''q_trap'', ''q_reject'']\<rparr>
   \<and> current_state (snd (step (load_input tm_two_a ''1''))) = ''q_reject''
   \<and> current_state (snd (step (load_input tm_two_b ''1''))) = ''q_trap''
   \<and> snd (run tm_two_a ''1'' 1000 False) \<noteq> snd (run tm_two_b ''1'' 1000 False)"
proof -
  have 1: "set (reject_states tm_two_a) = set (reject_states tm_two_b)"
    by (auto simp: tm_two_a_def tm_two_b_def TuringMachine_init_def)
  have 2: "tm_two_b = tm_two_a\<lparr>reject_states := [''q_trap'', ''q_reject'']\<rparr>"
    by (simp add: tm_two_a_def tm_two_b_def TuringMachine_init_def)
  have 3: "current_state (snd (step (load_input tm_two_a ''1''))) = ''q_reject''"
    by code_simp
  have 4: "current_state (snd (step (load_input tm_two_b ''1''))) = ''q_trap''"
    by code_simp
  have "current_state (snd (run tm_two_a ''1'' 1000 False)) = ''q_reject''"
    by code_simp
  moreover have "current_state (snd (run tm_two_b ''1'' 1000 False)) = ''q_trap''"
    by code_simp
  ultimately have 5: "snd (run tm_two_a ''1'' 1000 False) \<noteq> snd (run tm_two_b ''1'' 1000 False)"
    by auto
  from 1 2 3 4 5 show ?thesis by blast
qed






lemma labels_distinct:
  "ACEPTADA \<noteq> RECHAZADA" "ACEPTADA \<noteq> BUCLE_DETECTADO" "RECHAZADA \<noteq> BUCLE_DETECTADO"
  by (simp_all add: ACEPTADA_def RECHAZADA_def BUCLE_DETECTADO_def)

lemma run_calls_bound: "run_calls m inp k sbs \<le> nat k"
  using run_loop_calls [of "load_input m inp" k 0]
  by (simp add: run_calls_def load_input_exec)

lemma run_error_cause:
  assumes "fst (run m inp k sbs) = Inl e"
  shows "e = IndexError \<and> reject_states m = []"
proof -
  from assms have "fst (run_loop (load_input m inp) k 0) = Inl e"
    by (simp add: run_fst split: sum.splits)
  moreover have "tape (load_input m inp) \<noteq> None"
    by (simp add: load_input_exec)
  ultimately have "e = IndexError \<and> reject_states (load_input m inp) = []"
    by (rule run_loop_error_cause)
  then show ?thesis by (simp add: load_input_description)
qed

lemma run_returns_outcome:
  assumes "fst (run m inp k sbs) = Inr res"
  shows "res = outcome (snd (run m inp k sbs))"
  using assms by (simp add: run_fst run_snd split: sum.splits)

text \<open>
  C1, as the code has it. For every machine, input and \<open>max_steps \<ge> 0\<close>, \<^verbatim>\<open>run\<close>
  calls \<^verbatim>\<open>step\<close> at most \<open>max_steps\<close> times. It then either returns, and what it
  returns is decided by the final \<^verbatim>\<open>current_state\<close> in this order: accepted if it is
  in \<^verbatim>\<open>accept_states\<close>, else rejected if it is in \<^verbatim>\<open>reject_states\<close>, else the
  step-limit result, whose label differs from the other two; or it raises
  \<^verbatim>\<open>IndexError\<close>, which happens only when \<^verbatim>\<open>reject_states\<close> is empty. With a
  non-empty \<^verbatim>\<open>reject_states\<close> it always returns.
\<close>

theorem run_bounded_and_classified:
  assumes "0 \<le> max_steps"
  shows "int (run_calls m inp max_steps sbs) \<le> max_steps
         \<and> (fst (run m inp max_steps sbs) =
               Inr (if current_state (snd (run m inp max_steps sbs)) \<in> set (accept_states m)
                    then (True, ACEPTADA)
                    else if current_state (snd (run m inp max_steps sbs)) \<in> set (reject_states m)
                    then (False, RECHAZADA)
                    else (False, BUCLE_DETECTADO))
             \<or> (fst (run m inp max_steps sbs) = Inl IndexError \<and> reject_states m = []))
         \<and> ACEPTADA \<noteq> RECHAZADA \<and> ACEPTADA \<noteq> BUCLE_DETECTADO
         \<and> RECHAZADA \<noteq> BUCLE_DETECTADO"
proof -
  from assms run_calls_bound [of m inp max_steps sbs]
  have calls: "int (run_calls m inp max_steps sbs) \<le> max_steps"
    by simp
  have result: "fst (run m inp max_steps sbs) =
               Inr (if current_state (snd (run m inp max_steps sbs)) \<in> set (accept_states m)
                    then (True, ACEPTADA)
                    else if current_state (snd (run m inp max_steps sbs)) \<in> set (reject_states m)
                    then (False, RECHAZADA)
                    else (False, BUCLE_DETECTADO))
             \<or> (fst (run m inp max_steps sbs) = Inl IndexError \<and> reject_states m = [])"
  proof (cases "fst (run m inp max_steps sbs)")
    case (Inl e)
    with run_error_cause [OF Inl] show ?thesis by simp
  next
    case (Inr res)
    from run_returns_outcome [OF Inr] Inr show ?thesis
      by (simp add: outcome_def run_description)
  qed
  from calls result labels_distinct show ?thesis by blast
qed

theorem run_bounded_and_classified_witness:
  "int (run_calls tm_basic ''0'' 1000 False) \<le> 1000
   \<and> fst (run tm_basic ''0'' 1000 False) = Inr (True, ACEPTADA)
   \<and> fst (run tm_basic ''1'' 1000 False) = Inr (False, RECHAZADA)
   \<and> fst (run tm_basic ''0'' 0 False) = Inr (False, BUCLE_DETECTADO)"
proof -
  have h: "(0::int) \<le> 1000" "(0::int) \<le> 0" by simp_all
  have r: "reject_states tm_basic \<noteq> []" "accept_states tm_basic = [''q_accept'']"
    "reject_states tm_basic = [''q_reject'']"
    by (simp_all add: tm_basic_def TuringMachine_init_def)
  have c0: "current_state (snd (run tm_basic ''0'' 1000 False)) = ''q_accept''" by code_simp
  have c1: "current_state (snd (run tm_basic ''1'' 1000 False)) = ''q_reject''" by code_simp
  have c2: "current_state (snd (run tm_basic ''0'' 0 False)) = ''q0''" by code_simp
  from run_bounded_and_classified [OF h(1), of tm_basic "''0''" False]
    run_bounded_and_classified [OF h(1), of tm_basic "''1''" False]
    run_bounded_and_classified [OF h(2), of tm_basic "''0''" False]
  show ?thesis
    by (simp add: r c0 c1 c2)
qed

text \<open>
  C1, as the claim states it, fails on a machine without reject states: the run below
  returns none of the three outcomes, it raises \<^verbatim>\<open>IndexError\<close>.
\<close>

theorem run_without_reject_states_raises:
  "(0::int) \<le> 1000
   \<and> reject_states tm_no_reject = []
   \<and> fst (run tm_no_reject ''1'' 1000 False) = Inl IndexError"
proof -
  have 1: "reject_states tm_no_reject = []" by code_simp
  have 2: "fst (run tm_no_reject ''1'' 1000 False) = Inl IndexError" by code_simp
  from 1 2 show ?thesis by simp
qed

subsection \<open>The history\<close>

lemma step_history:
  "fst (step m) = Inr True \<Longrightarrow>
     (\<exists>t. tape (snd (step m)) = Some t
           \<and> history (snd (step m)) = history m @ [config_line (snd (step m)) t])
     \<and> step_count (snd (step m)) = step_count m + 1"
  "fst (step m) \<noteq> Inr True \<Longrightarrow>
     history (snd (step m)) = history m \<and> step_count (snd (step m)) = step_count m"
  by (auto simp: step_def record_configuration_def config_line_def Let_def
           split: option.splits list.splits prod.splits if_splits)

lemma step_history_length:
  "int (length (history m)) = step_count m + 1 \<Longrightarrow>
   int (length (history (snd (step m)))) = step_count (snd (step m)) + 1"
proof (cases "fst (step m) = Inr True")
  case True
  assume "int (length (history m)) = step_count m + 1"
  with step_history(1) [OF True] show ?thesis by auto
next
  case False
  assume "int (length (history m)) = step_count m + 1"
  with step_history(2) [OF False] show ?thesis by simp
qed

lemma run_loop_history_length:
  "int (length (history m)) = step_count m + 1 \<Longrightarrow>
   int (length (history (fst (snd (run_loop m k n)))))
     = step_count (fst (snd (run_loop m k n))) + 1"
proof (induction m k n rule: run_loop_induct)
  case (stop m k n)
  then show ?case by (simp add: run_loop_stop)
next
  case (error m k n e m')
  with step_history_length [of m] show ?case by (simp add: run_loop_error)
next
  case (break m k n m')
  with step_history_length [of m] show ?case by (simp add: run_loop_break)
next
  case (continue m k n m')
  with step_history_length [of m] show ?case by (simp add: run_loop_continue)
qed

lemma config_line_state:
  "config_line (m\<lparr>current_state := r\<rparr>) t = config_line m t \<longleftrightarrow> r = current_state m"
  by (auto simp: config_line_def)

lemma str_nat_nonempty: "str_nat n \<noteq> []"
  by (subst str_nat.simps) simp

lemma digit_inj:
  "d < 10 \<Longrightarrow> e < 10 \<Longrightarrow> ''0123456789'' ! d = ''0123456789'' ! e \<longleftrightarrow> d = e"
  by (rule nth_eq_iff_index_eq) simp_all

lemma digit_not_colon: "d < 10 \<Longrightarrow> CHR '':'' \<noteq> ''0123456789'' ! d"
proof
  assume d: "d < 10" and eq: "CHR '':'' = ''0123456789'' ! d"
  from d have "d < length ''0123456789''" by simp
  then have "''0123456789'' ! d \<in> set ''0123456789''" by (rule nth_mem)
  then have "CHR '':'' \<in> set ''0123456789''" unfolding eq [symmetric] .
  then show False by simp
qed

lemma str_nat_no_colon: "CHR '':'' \<notin> set (str_nat n)"
proof (induction n rule: str_nat.induct)
  case (1 n)
  show ?case
  proof (cases "n < 10")
    case True
    then show ?thesis by (subst str_nat.simps) (simp add: digit_not_colon)
  next
    case False
    with 1 show ?thesis by (subst str_nat.simps) (simp add: digit_not_colon)
  qed
qed

lemma str_nat_inj: "str_nat a = str_nat b \<Longrightarrow> a = b"
proof (induction a arbitrary: b rule: str_nat.induct)
  case (1 a)
  show ?case
  proof (cases "a < 10")
    case a: True
    then have sa: "str_nat a = [''0123456789'' ! a]" by (subst str_nat.simps) simp
    show ?thesis
    proof (cases "b < 10")
      case True
      then have "str_nat b = [''0123456789'' ! b]" by (subst str_nat.simps) simp
      with sa "1.prems" a True show ?thesis by (simp add: digit_inj)
    next
      case False
      then have "str_nat b = str_nat (b div 10) @ [''0123456789'' ! (b mod 10)]"
        by (subst str_nat.simps) simp
      with sa "1.prems" str_nat_nonempty [of "b div 10"] show ?thesis by simp
    qed
  next
    case a: False
    then have sa: "str_nat a = str_nat (a div 10) @ [''0123456789'' ! (a mod 10)]"
      by (subst str_nat.simps) simp
    show ?thesis
    proof (cases "b < 10")
      case True
      then have "str_nat b = [''0123456789'' ! b]" by (subst str_nat.simps) simp
      with sa "1.prems" str_nat_nonempty [of "a div 10"] show ?thesis by simp
    next
      case False
      then have "str_nat b = str_nat (b div 10) @ [''0123456789'' ! (b mod 10)]"
        by (subst str_nat.simps) simp
      with sa "1.prems" have "str_nat (a div 10) = str_nat (b div 10)"
        and "''0123456789'' ! (a mod 10) = ''0123456789'' ! (b mod 10)"
        by simp_all
      with "1.IH" [OF a] have "a div 10 = b div 10" and "a mod 10 = b mod 10"
        by (simp_all add: digit_inj)
      then show ?thesis by (metis div_mult_mod_eq)
    qed
  qed
qed

lemma append_sep_eq:
  "xs @ c # X = ys @ c # Y \<Longrightarrow> c \<notin> set xs \<Longrightarrow> c \<notin> set ys \<Longrightarrow> xs = ys"
proof (induction xs arbitrary: ys)
  case Nil
  then show ?case by (cases ys) auto
next
  case (Cons x xs)
  then show ?case by (cases ys) auto
qed

lemma config_line_of_step:
  "0 \<le> step_count m \<Longrightarrow> line_of_step (nat (step_count m)) (config_line m t)"
  by (auto simp: line_of_step_def config_line_def str_int_def)

lemma line_of_step_unique: "line_of_step i l \<Longrightarrow> line_of_step j l \<Longrightarrow> i = j"
proof -
  assume "line_of_step i l" and "line_of_step j l"
  then obtain X Y where "str_nat i @ CHR '':'' # X = str_nat j @ CHR '':'' # Y"
    by (auto simp: line_of_step_def)
  then have "str_nat i = str_nat j"
    by (rule append_sep_eq) (rule str_nat_no_colon)+
  then show ?thesis by (rule str_nat_inj)
qed

lemma config_line_history: "config_line (m\<lparr>history := h\<rparr>) t = config_line m t"
  by (simp add: config_line_def)

lemma history_inv_load_input: "history_inv (load_input m inp)"
proof -
  let ?m = "load_input m inp"
  have h: "history ?m = [config_line ?m (Tape_init inp (blank_symbol m))]"
    by (simp add: load_input_def record_configuration_def config_line_def)
  have "line_of_step (nat (step_count ?m)) (config_line ?m (Tape_init inp (blank_symbol m)))"
    by (rule config_line_of_step) (simp add: load_input_exec)
  then have "line_of_step 0 (config_line ?m (Tape_init inp (blank_symbol m)))"
    by (simp add: load_input_exec)
  with h show ?thesis
    by (simp add: history_inv_def load_input_exec)
qed

lemma history_inv_step:
  assumes "history_inv m"
  shows "history_inv (snd (step m))"
proof -
  from assms obtain t where t: "tape m = Some t"
    and l: "current_state m \<notin> set (reject_states m) \<Longrightarrow> last (history m) = config_line m t"
    and c: "0 \<le> step_count m"
    and n: "int (length (history m)) = step_count m + 1"
    and p: "\<And>i. i < length (history m) \<Longrightarrow> line_of_step i (history m ! i)"
    by (auto simp: history_inv_def)
  show ?thesis
  proof (cases "current_state m \<in> set (accept_states m) \<or> current_state m \<in> set (reject_states m)")
    case True
    with step_halting [OF t] assms show ?thesis by simp
  next
    case False
    then have na: "current_state m \<notin> set (accept_states m)"
      and nr: "current_state m \<notin> set (reject_states m)" by simp_all
    show ?thesis
    proof (cases "get_transition (transition_function m) (current_state m) (read t)")
      case None
      show ?thesis
      proof (cases "reject_states m")
        case Nil
        with step_undefined [OF t na nr None] assms show ?thesis by simp
      next
        case (Cons r rs)
        with step_undefined [OF t na nr None]
        have s: "snd (step m) = m\<lparr>current_state := r\<rparr>" by simp
        from Cons t c n p show ?thesis
          unfolding s history_inv_def by simp
      qed
    next
      case (Some tr)
      obtain q w d where tr: "tr = (q, w, d)" by (cases tr)
      let ?t' = "move (write' t w) d"
      let ?m1 = "m\<lparr>tape := Some ?t', current_state := q, step_count := step_count m + 1\<rparr>"
      let ?l = "config_line ?m1 ?t'"
      from step_defined [OF t na nr Some [unfolded tr]]
      have s: "snd (step m) = ?m1\<lparr>history := history m @ [?l]\<rparr>"
        by (simp add: record_configuration_def)
      from c have "line_of_step (nat (step_count ?m1)) ?l"
        by (intro config_line_of_step) simp
      moreover from n c have "nat (step_count ?m1) = length (history m)"
        by simp
      ultimately have new: "line_of_step (length (history m)) ?l" by simp
      have "line_of_step i ((history m @ [?l]) ! i)" if "i < length (history m @ [?l])" for i
      proof (cases "i < length (history m)")
        case True
        with p [OF True] show ?thesis by (simp add: nth_append)
      next
        case False
        with that have "i = length (history m)" by simp
        with new show ?thesis by simp
      qed
      with c n show ?thesis
        unfolding s history_inv_def by (simp add: config_line_history)
    qed
  qed
qed

lemma history_inv_steps: "history_inv m \<Longrightarrow> history_inv (steps n m)"
  by (induction n arbitrary: m) (simp_all add: history_inv_step)

lemma reject_line_not_in_history:
  assumes inv: "history_inv m"
    and t: "tape m = Some t"
    and nr: "current_state m \<notin> set (reject_states m)"
    and r: "r \<in> set (reject_states m)"
  shows "config_line (m\<lparr>current_state := r\<rparr>) t \<notin> set (history m)"
proof
  let ?l = "config_line (m\<lparr>current_state := r\<rparr>) t"
  assume "?l \<in> set (history m)"
  then obtain i where i: "i < length (history m)" and eq: "history m ! i = ?l"
    by (auto simp: in_set_conv_nth)
  from inv have c: "0 \<le> step_count m" and n: "int (length (history m)) = step_count m + 1"
    and p: "line_of_step i (history m ! i)"
    using i by (auto simp: history_inv_def)
  from inv t nr have l: "last (history m) = config_line m t"
    by (auto simp: history_inv_def)
  from c have "line_of_step (nat (step_count (m\<lparr>current_state := r\<rparr>))) ?l"
    by (intro config_line_of_step) simp
  with p eq have "i = nat (step_count m)"
    by (auto dest: line_of_step_unique)
  with n have "i = length (history m) - 1" by simp
  moreover from i have "history m \<noteq> []" by auto
  ultimately have "history m ! i = last (history m)"
    by (simp add: last_conv_nth)
  with eq l have "config_line (m\<lparr>current_state := r\<rparr>) t = config_line m t" by simp
  then have "r = current_state m" by (simp add: config_line_state)
  with nr r show False by simp
qed

text \<open>
  C10. \<^verbatim>\<open>load_input\<close> leaves a history of one snapshot, that of the initial
  configuration, and after any number of calls of \<^verbatim>\<open>step\<close> from there, and at
  the end of \<^verbatim>\<open>run\<close>, \<open>len(history) = step_count + 1\<close>. A call of
  \<^verbatim>\<open>step\<close> that returns \<^verbatim>\<open>True\<close> adds one to the step count and appends one
  snapshot, that of the configuration reached; any other call (in a halting state, on an
  implicit reject, or raising) changes neither. On an implicit reject the history is
  therefore left as it was, and the snapshot of the final configuration, the one with the
  reject state, occurs nowhere in it.
\<close>

theorem history_length_invariant:
  "history (load_input m0 inp)
     = [config_line (load_input m0 inp) (Tape_init inp (blank_symbol m0))]
   \<and> int (length (history (steps n (load_input m0 inp))))
       = step_count (steps n (load_input m0 inp)) + 1
   \<and> int (length (history (snd (run m0 inp k sbs)))) = step_count (snd (run m0 inp k sbs)) + 1
   \<and> (int (length (history m)) = step_count m + 1 \<longrightarrow>
        int (length (history (snd (step m)))) = step_count (snd (step m)) + 1)
   \<and> (fst (step m) = Inr True \<longrightarrow>
        (\<exists>t'. tape (snd (step m)) = Some t'
              \<and> history (snd (step m)) = history m @ [config_line (snd (step m)) t'])
        \<and> step_count (snd (step m)) = step_count m + 1)
   \<and> (fst (step m) \<noteq> Inr True \<longrightarrow>
        history (snd (step m)) = history m \<and> step_count (snd (step m)) = step_count m)
   \<and> (m = steps n (load_input m0 inp) \<and> tape m = Some t
        \<and> current_state m \<notin> set (accept_states m)
        \<and> current_state m \<notin> set (reject_states m)
        \<and> get_transition (transition_function m) (current_state m) (read t) = None
        \<and> reject_states m \<noteq> []
        \<longrightarrow> tape (snd (step m)) = Some t
            \<and> current_state (snd (step m)) \<in> set (reject_states m)
            \<and> history (snd (step m)) = history m
            \<and> config_line (snd (step m)) t \<notin> set (history (snd (step m))))"
proof -
  have a: "history (load_input m0 inp)
     = [config_line (load_input m0 inp) (Tape_init inp (blank_symbol m0))]"
    by (simp add: load_input_def record_configuration_def config_line_def)
  have inv: "history_inv (steps n (load_input m0 inp))"
    by (intro history_inv_steps history_inv_load_input)
  then have b: "int (length (history (steps n (load_input m0 inp))))
       = step_count (steps n (load_input m0 inp)) + 1"
    by (simp add: history_inv_def)
  have "int (length (history (load_input m0 inp))) = step_count (load_input m0 inp) + 1"
    by (simp add: load_input_exec)
  then have c: "int (length (history (snd (run m0 inp k sbs))))
      = step_count (snd (run m0 inp k sbs)) + 1"
    unfolding run_snd by (rule run_loop_history_length)
  have d: "tape (snd (step m)) = Some t
            \<and> current_state (snd (step m)) \<in> set (reject_states m)
            \<and> history (snd (step m)) = history m
            \<and> config_line (snd (step m)) t \<notin> set (history (snd (step m)))"
    if m: "m = steps n (load_input m0 inp)"
      and h: "tape m = Some t" "current_state m \<notin> set (accept_states m)"
      "current_state m \<notin> set (reject_states m)"
      "get_transition (transition_function m) (current_state m) (read t) = None"
      and ne: "reject_states m \<noteq> []"
  proof -
    from ne obtain r rs where rs: "reject_states m = r # rs"
      by (cases "reject_states m") auto
    with step_undefined [OF h] have s: "snd (step m) = m\<lparr>current_state := r\<rparr>"
      by simp
    from inv m have "history_inv m" by simp
    then have "config_line (m\<lparr>current_state := r\<rparr>) t \<notin> set (history m)"
      using h(1,3) by (rule reject_line_not_in_history) (simp add: rs)
    with h(1) rs show ?thesis unfolding s by simp
  qed
  from a b c d step_history_length [of m] step_history [of m] show ?thesis
    by blast
qed

theorem history_length_invariant_witness:
  "fst (step (load_input tm_basic ''0'')) = Inr True
   \<and> length (history (snd (step (load_input tm_basic ''0'')))) = 2
   \<and> step_count (snd (step (load_input tm_basic ''0''))) = 1
   \<and> fst (step (load_input tm_basic ''1'')) = Inr False
   \<and> current_state (snd (step (load_input tm_basic ''1''))) = ''q_reject''
   \<and> history (snd (step (load_input tm_basic ''1''))) = history (load_input tm_basic ''1'')
   \<and> step_count (snd (step (load_input tm_basic ''1''))) = 0
   \<and> config_line (snd (step (load_input tm_basic ''1''))) (Tape_init ''1'' ''_'')
       \<notin> set (history (snd (step (load_input tm_basic ''1''))))"
proof -
  let ?m0 = "load_input tm_basic ''0''"
  let ?m1 = "load_input tm_basic ''1''"
  have t0: "fst (step ?m0) = Inr True" by code_simp
  have t1: "fst (step ?m1) \<noteq> Inr True" by code_simp
  have f1: "fst (step ?m1) = Inr False" by code_simp
  have l0: "int (length (history ?m0)) = 1" "step_count ?m0 = 0"
    by (simp_all add: load_input_exec)
  have l1: "step_count ?m1 = 0" by (simp add: load_input_exec)
  have e: "?m1 = steps 0 (load_input tm_basic ''1'')" by simp
  have h1: "tape ?m1 = Some (Tape_init ''1'' ''_'')" by code_simp
  have h2: "current_state ?m1 \<notin> set (accept_states ?m1)" by code_simp
  have h3: "current_state ?m1 \<notin> set (reject_states ?m1)" by code_simp
  have h4: "get_transition (transition_function ?m1) (current_state ?m1)
              (read (Tape_init ''1'' ''_'')) = None" by code_simp
  have h5: "reject_states ?m1 = [''q_reject'']" by code_simp
  then have h5': "reject_states ?m1 \<noteq> []" by simp
  have s0: "step_count (snd (step ?m0)) = step_count ?m0 + 1
      \<and> int (length (history (snd (step ?m0)))) = step_count (snd (step ?m0)) + 1"
    using history_length_invariant [where m = ?m0 and ?m0.0 = tm_basic and inp = "''0''"
        and n = 0 and k = 0 and sbs = False and t = "Tape_init ''0'' ''_''"] t0 l0
    by simp
  have p0: "length (history (snd (step ?m0))) = 2 \<and> step_count (snd (step ?m0)) = 1"
    using s0 l0(2) by simp
  have q1: "current_state (snd (step ?m1)) \<in> set (reject_states ?m1)
      \<and> history (snd (step ?m1)) = history ?m1
      \<and> config_line (snd (step ?m1)) (Tape_init ''1'' ''_'') \<notin> set (history (snd (step ?m1)))"
    using history_length_invariant [where m = ?m1 and ?m0.0 = tm_basic and inp = "''1''"
        and n = 0 and k = 0 and sbs = False and t = "Tape_init ''1'' ''_''"]
      e h1 h2 h3 h4 h5'
    by blast
  have s1: "step_count (snd (step ?m1)) = step_count ?m1"
    using history_length_invariant [where m = ?m1 and ?m0.0 = tm_basic and inp = "''1''"
        and n = 0 and k = 0 and sbs = False and t = "Tape_init ''1'' ''_''"] t1
    by blast
  from q1 h5 have c1: "current_state (snd (step ?m1)) = ''q_reject''" by simp
  from s1 l1 have z1: "step_count (snd (step ?m1)) = 0" by simp
  from t0 f1 p0 q1 z1 c1 show ?thesis by blast
qed

subsection \<open>Runs that raise, and runs that are repeated\<close>








lemma run_loop_steps:
  "c \<le> snd (snd (run_loop m k c))
   \<and> fst (snd (run_loop m k c)) = steps (snd (snd (run_loop m k c)) - c) m"
proof (induction m k c rule: run_loop_induct)
  case (stop m k n)
  then show ?case by (simp add: run_loop_stop)
next
  case (error m k n e m')
  then show ?case by (simp add: run_loop_error)
next
  case (break m k n m')
  then show ?case by (simp add: run_loop_break)
next
  case (continue m k n m')
  let ?c = "snd (snd (run_loop m' k (n + 1)))"
  from continue have le: "n + 1 \<le> ?c"
    and st: "fst (snd (run_loop m' k (n + 1))) = steps (?c - (n + 1)) m'" by simp_all
  from le have "?c - n = Suc (?c - (n + 1))" by simp
  with continue(2) have "steps (?c - n) m = steps (?c - (n + 1)) m'" by simp
  with continue(1,2) le st show ?case by (simp add: run_loop_continue)
qed

lemma run_steps: "snd (run m inp k sbs) = steps (run_calls m inp k sbs) (load_input m inp)"
  using run_loop_steps [of 0 "load_input m inp" k]
  by (simp add: run_snd run_calls_def)




lemma run_description_init:
  "initial_state (snd (run m inp k sbs)) = initial_state m"
  "blank_symbol (snd (run m inp k sbs)) = blank_symbol m"
proof -
  have "initial_state (load_input (snd (run m inp k sbs)) []) = initial_state (load_input m [])"
    by (simp only: load_input_run)
  then show "initial_state (snd (run m inp k sbs)) = initial_state m"
    by (simp add: load_input_description)
  have "blank_symbol (load_input (snd (run m inp k sbs)) []) = blank_symbol (load_input m [])"
    by (simp only: load_input_run)
  then show "blank_symbol (snd (run m inp k sbs)) = blank_symbol m"
    by (simp add: load_input_description)
qed

text \<open>
  C7. \<^verbatim>\<open>run\<close> starts from \<^verbatim>\<open>load_input\<close>, which puts a fresh tape seeded
  from the input in place, sets \<^verbatim>\<open>current_state\<close> to \<^verbatim>\<open>initial_state\<close> and
  \<^verbatim>\<open>step_count\<close> to 0, and replaces the history by the one snapshot of that
  configuration; what a run leaves is that machine after as many steps as the run made.
  A run changes neither \<^verbatim>\<open>initial_state\<close> nor \<^verbatim>\<open>blank_symbol\<close>, so
  \<^verbatim>\<open>load_input\<close> gives the same machine whatever run came before. Running again on
  the machine a first run left behind, with the same input and step limit, therefore
  returns the same result and leaves the same machine, so the same history; and
  \<^verbatim>\<open>run\<close> returns the same whatever the state, tape, step count and history were.
\<close>

theorem run_is_repeatable:
  "run (snd (run m inp k sbs)) inp k sbs = run m inp k sbs
   \<and> fst (run (snd (run m inp k sbs)) inp k sbs) = fst (run m inp k sbs)
   \<and> length (get_history (snd (run (snd (run m inp k sbs)) inp k sbs)))
       = length (get_history (snd (run m inp k sbs)))
   \<and> load_input (snd (run m inp' k' sbs')) inp = load_input m inp
   \<and> run (snd (run m inp' k' sbs')) inp k sbs = run m inp k sbs
   \<and> run (m\<lparr>current_state := c, tape := tp, step_count := n, history := h\<rparr>) inp k sbs
       = run m inp k sbs
   \<and> tape (load_input m inp) = Some (Tape_init inp (blank_symbol m))
   \<and> current_state (load_input m inp) = initial_state m
   \<and> step_count (load_input m inp) = 0
   \<and> history (load_input m inp)
       = [config_line (load_input m inp) (Tape_init inp (blank_symbol m))]
   \<and> initial_state (snd (run m inp' k' sbs')) = initial_state m
   \<and> blank_symbol (snd (run m inp' k' sbs')) = blank_symbol m
   \<and> snd (run m inp k sbs) = steps (run_calls m inp k sbs) (load_input m inp)
   \<and> snd (run m inp 0 sbs) = load_input m inp"
proof -
  have a: "run (snd (run m i1 k1 s1)) inp k sbs = run m inp k sbs" for i1 k1 s1
    by (simp add: run_def [of "snd (run m i1 k1 s1)"] run_def [of m inp k] load_input_run)
  have b: "run (m\<lparr>current_state := c, tape := tp, step_count := n, history := h\<rparr>) inp k sbs
       = run m inp k sbs"
    by (simp add: run_def load_input_exec_indep)
  have h: "history (load_input m inp)
       = [config_line (load_input m inp) (Tape_init inp (blank_symbol m))]"
    by (simp add: load_input_def record_configuration_def config_line_def)
  have z: "snd (run m inp 0 sbs) = load_input m inp"
    by (simp add: run_snd run_loop_stop load_input_exec)
  have s: "snd (run m inp k sbs) = steps (run_calls m inp k sbs) (load_input m inp)"
    by (rule run_steps)
  have l: "load_input (snd (run m inp' k' sbs')) inp = load_input m inp"
    by (rule load_input_run)
  have i: "initial_state (snd (run m inp' k' sbs')) = initial_state m"
    "blank_symbol (snd (run m inp' k' sbs')) = blank_symbol m"
    by (rule run_description_init)+
  have e: "tape (load_input m inp) = Some (Tape_init inp (blank_symbol m))"
    "current_state (load_input m inp) = initial_state m"
    "step_count (load_input m inp) = 0"
    by (rule load_input_exec)+
  have a': "run (snd (run m inp k sbs)) inp k sbs = run m inp k sbs"
    and a'': "run (snd (run m inp' k' sbs')) inp k sbs = run m inp k sbs"
    by (rule a)+
  from a' have r: "fst (run (snd (run m inp k sbs)) inp k sbs) = fst (run m inp k sbs)"
    and g: "length (get_history (snd (run (snd (run m inp k sbs)) inp k sbs)))
       = length (get_history (snd (run m inp k sbs)))"
    by simp_all
  show ?thesis
    by (intro conjI a' r g l a'' b e h i s z)
qed

end
